theory Spec2Isabelle
  imports Complex_Main "HOL-Library.Word"
begin

section \<open>The Rambler fuel gauge\<close>

text \<open>
  Two Arduino Uno sketches drive the gauge: \<^verbatim>\<open>gas-gauge.ino\<close> (one linear calibration,
  applied to the running average of the last 100 readings) and a second sketch (two
  calibration stages, through the sender's resistance, applied to each reading as it
  comes).  Both share the display quantizer and the sampling schedule of \<^verbatim>\<open>loop\<close>.

  The target fixes the machine types: on the Uno \<^verbatim>\<open>int\<close> has 16 bits and
  \<^verbatim>\<open>unsigned int\<close> is a \<^typ>\<open>16 word\<close>.  A \<^verbatim>\<open>float\<close> is modelled by the rational
  number it denotes, with exact arithmetic: every finite float is a rational, so a
  statement about all rationals covers all finite float arguments, while the rounding of
  each float operation is left out.
\<close>

subsection \<open>What C leaves undefined\<close>

datatype error =
    Conversion_out_of_range
  | Signed_overflow
  | Index_out_of_bounds
  | Division_by_zero

definition INT_MIN :: int where
  "INT_MIN = - 32768"

definition INT_MAX :: int where
  "INT_MAX = 32767"

text \<open>
  The cast \<^verbatim>\<open>(int)x\<close> of a float discards the fractional part; the result is
  undefined when the integral part does not fit \<^verbatim>\<open>int\<close>.
\<close>

definition float_to_int :: "rat \<Rightarrow> error + int" where
  "float_to_int x =
     (let t = (if 0 \<le> x then \<lfloor>x\<rfloor> else \<lceil>x\<rceil>)
      in if INT_MIN \<le> t \<and> t \<le> INT_MAX then Inr t else Inl Conversion_out_of_range)"

text \<open>Subtraction of two \<^verbatim>\<open>int\<close>s; signed overflow is undefined.\<close>

definition int_sub :: "int \<Rightarrow> int \<Rightarrow> error + int" where
  "int_sub a b =
     (if INT_MIN \<le> a - b \<and> a - b \<le> INT_MAX then Inr (a - b) else Inl Signed_overflow)"

subsection \<open>Calibration\<close>

text \<open>\<^verbatim>\<open>gas-gauge.ino\<close>: gallons remaining, linear in the reading.\<close>

definition estimate_gallons_remaining_from_reading :: "rat \<Rightarrow> rat" where
  "estimate_gallons_remaining_from_reading reading = 26.3 - (0.0637 * reading)"

text \<open>
  The second sketch: the two locals of \<^verbatim>\<open>estimate_ohmage_from_reading\<close>, then the function
  itself and the linear map from ohms to gallons.
\<close>

definition norm_reading :: "int \<Rightarrow> rat" where
  "norm_reading reading = of_int (reading - 80) / 454.0"

definition norm_ohmage :: "rat \<Rightarrow> rat" where
  "norm_ohmage x = 0.5387 * x * x + 0.4665 * x"

definition estimate_ohmage_from_reading :: "int \<Rightarrow> rat" where
  "estimate_ohmage_from_reading reading =
     100.0 * norm_ohmage (norm_reading reading) + 2.0"

definition get_gallons_for_ohmage :: "rat \<Rightarrow> rat" where
  "get_gallons_for_ohmage ohmage = - 0.3016 * ohmage + 22.016"

subsection \<open>The display quantizer (the same text in both sketches)\<close>

definition get_num_display_blocks_for_gallons :: "rat \<Rightarrow> error + int" where
  "get_num_display_blocks_for_gallons gallons =
     (case float_to_int gallons of
        Inl e \<Rightarrow> Inl e
      | Inr gallon_floor \<Rightarrow>
          (case int_sub gallon_floor 2 of
             Inl e \<Rightarrow> Inl e
           | Inr desired_blocks \<Rightarrow> Inr (max 0 (min desired_blocks 16))))"

text \<open>The quantizer as the specification words it, for comparison.\<close>

definition truncate_toward_zero :: "rat \<Rightarrow> int" where
  "truncate_toward_zero x = (if x < 0 then - \<lfloor>\<bar>x\<bar>\<rfloor> else \<lfloor>\<bar>x\<bar>\<rfloor>)"

definition clamp :: "int \<Rightarrow> int \<Rightarrow> int \<Rightarrow> int" where
  "clamp v lo hi = (if v < lo then lo else if hi < v then hi else v)"

subsection \<open>Collaborators\<close>

text \<open>
  The sketches talk to the serial port, the analog input and the display.  A call of
  \<^verbatim>\<open>loop\<close> returns the calls it made, in order.  \<^verbatim>\<open>show_gas_meter\<close> and
  \<^verbatim>\<open>show_gas_stats\<close> are recorded with the arguments they receive, after the implicit
  conversion to their parameter types.  \<^verbatim>\<open>Serial.println(v, DEC)\<close> is recorded with
  the number it prints.
\<close>

datatype pin = A0 | A1

datatype event =
    Serial_print string
  | Serial_println string
  | Serial_println_DEC int
  | Analog_read pin
  | Show_gas_meter int
  | Show_gas_stats int int rat
  | Show_gas_stats_ohmage int rat rat

fun is_sensor_read :: "event \<Rightarrow> bool" where
  "is_sensor_read (Analog_read p) = True"
| "is_sensor_read e = False"

fun is_render :: "event \<Rightarrow> bool" where
  "is_render (Show_gas_meter n) = True"
| "is_render (Show_gas_stats row v g) = True"
| "is_render (Show_gas_stats_ohmage v ohm g) = True"
| "is_render e = False"

subsection \<open>Globals\<close>

definition STARTUP_SAMPLE_RATE_MS :: int where
  "STARTUP_SAMPLE_RATE_MS = 500"

definition STARTUP_SAMPLE_DURATION_S :: int where
  "STARTUP_SAMPLE_DURATION_S = 5"

definition NORMAL_SAMPLE_RATE_S :: int where
  "NORMAL_SAMPLE_RATE_S = 5"

definition MAX_SAMPLES :: int where
  "MAX_SAMPLES = 100"

text \<open>
  The mutable globals.  The second sketch has the first two only; \<^verbatim>\<open>gas-gauge.ino\<close>
  adds the cache of samples.  \<^verbatim>\<open>boot_time_ms\<close> is \<^verbatim>\<open>const\<close> and is passed to
  \<^verbatim>\<open>loop\<close> as a parameter.  The write index and the count are integers without a
  width: no run lets them pass 100 (\<open>run_defined\<close> below), so the 16-bit additions on
  them never overflow.
\<close>

record scheduler =
  last_update_time_ms :: "16 word"
  in_startup_mode :: bool

record gauge = scheduler +
  samples :: "int list"
  next_sample :: int
  samples_to_average :: int

definition initial_scheduler :: "16 word \<Rightarrow> scheduler" where
  "initial_scheduler boot_time_ms =
     \<lparr>last_update_time_ms = boot_time_ms, in_startup_mode = True\<rparr>"

definition initial_gauge :: "16 word \<Rightarrow> gauge" where
  "initial_gauge boot_time_ms =
     \<lparr>last_update_time_ms = boot_time_ms, in_startup_mode = True,
      samples = replicate (nat MAX_SAMPLES) 0, next_sample = 0, samples_to_average = 0\<rparr>"

subsection \<open>The schedule at the head of \<^verbatim>\<open>loop\<close> (the same text in both sketches)\<close>

text \<open>
  \<^verbatim>\<open>unsigned int current_time_ms = millis();\<close> keeps the low 16 bits of the 32-bit clock.
\<close>

definition current_time_ms_of :: "32 word \<Rightarrow> 16 word" where
  "current_time_ms_of millis = ucast millis"

definition delta_ms_of :: "16 word \<Rightarrow> 16 word \<Rightarrow> 16 word" where
  "delta_ms_of current_time_ms previous =
     (if current_time_ms < previous then 30000 else current_time_ms - previous)"

text \<open>The condition of the early return; the \<^verbatim>\<open>int\<close> constants convert to unsigned.\<close>

definition early_return :: "bool \<Rightarrow> 16 word \<Rightarrow> bool" where
  "early_return startup delta_ms \<longleftrightarrow>
     delta_ms < word_of_int STARTUP_SAMPLE_RATE_MS \<or>
     (\<not> startup \<and> delta_ms < word_of_int (NORMAL_SAMPLE_RATE_S * 1000))"

definition diagnostics :: "bool \<Rightarrow> 16 word \<Rightarrow> 16 word \<Rightarrow> 16 word \<Rightarrow> event list" where
  "diagnostics startup previous current_time_ms delta_ms =
     [Serial_print ''Startup?: '', Serial_println_DEC (if startup then 1 else 0),
      Serial_print ''Previous: '', Serial_println_DEC (uint previous),
      Serial_print ''Current: '', Serial_println_DEC (uint current_time_ms),
      Serial_print ''Delta: '', Serial_println_DEC (uint delta_ms),
      Serial_println []]"

text \<open>The switch to normal mode, taken only while in startup mode.\<close>

definition next_startup_mode :: "16 word \<Rightarrow> bool \<Rightarrow> 16 word \<Rightarrow> bool" where
  "next_startup_mode boot_time_ms startup current_time_ms =
     (if startup then
        (let time_since_boot_ms = current_time_ms - boot_time_ms
         in time_since_boot_ms < word_of_int (STARTUP_SAMPLE_DURATION_S * 1000))
      else startup)"

subsection \<open>\<^verbatim>\<open>loop\<close> of the second sketch: each reading goes through both calibration stages\<close>

text \<open>
  \<^verbatim>\<open>analogRead\<close> returns the conversion result of the 10-bit converter, which is the
  type of the parameter \<open>adc\<close>.
\<close>

definition loop_two_stage ::
    "16 word \<Rightarrow> scheduler \<Rightarrow> 32 word \<Rightarrow> 10 word \<Rightarrow> error + scheduler \<times> event list" where
  "loop_two_stage boot_time_ms s millis adc =
     (let current_time_ms = current_time_ms_of millis;
          delta_ms = delta_ms_of current_time_ms (last_update_time_ms s);
          out = diagnostics (in_startup_mode s) (last_update_time_ms s) current_time_ms delta_ms
      in if early_return (in_startup_mode s) delta_ms then Inr (s, out)
         else
           let out = out @ [Serial_println ''Passed early return check''];
               s = s\<lparr>in_startup_mode :=
                       next_startup_mode boot_time_ms (in_startup_mode s) current_time_ms\<rparr>;
               sensor_value = uint adc;
               out = out @ [Analog_read A0];
               ohmage = estimate_ohmage_from_reading sensor_value;
               gallons = get_gallons_for_ohmage ohmage
           in case get_num_display_blocks_for_gallons gallons of
                Inl e \<Rightarrow> Inl e
              | Inr num_blocks \<Rightarrow>
                  Inr (s\<lparr>last_update_time_ms := current_time_ms\<rparr>,
                       out @ [Show_gas_meter num_blocks,
                              Show_gas_stats_ohmage sensor_value ohmage gallons]))"

subsection \<open>\<^verbatim>\<open>loop\<close> of \<^verbatim>\<open>gas-gauge.ino\<close>: the running average of the cache\<close>

text \<open>The block ``Update the cache of samples''.\<close>

definition update_cache :: "gauge \<Rightarrow> int \<Rightarrow> error + gauge" where
  "update_cache s sensor_value =
     (if 0 \<le> next_sample s \<and> next_sample s < int (length (samples s)) then
        (let s = s\<lparr>samples := (samples s)[nat (next_sample s) := sensor_value]\<rparr>;
             s = s\<lparr>next_sample := next_sample s + 1\<rparr>;
             s = s\<lparr>samples_to_average := min (samples_to_average s + 1) MAX_SAMPLES\<rparr>
         in Inr (if next_sample s \<ge> MAX_SAMPLES then s\<lparr>next_sample := 0\<rparr> else s))
      else Inl Index_out_of_bounds)"

text \<open>
  The block ``Calculate the average sensor value in the cache'': the summing loop, with
  the loop variable \<open>i\<close> and the running sum \<open>sum_so_far\<close>, then the division.
\<close>

function sum_samples :: "int list \<Rightarrow> int \<Rightarrow> int \<Rightarrow> rat \<Rightarrow> error + rat" where
  "sum_samples xs n i sum_so_far =
     (if i < n then
        (if 0 \<le> i \<and> i < int (length xs)
         then sum_samples xs n (i + 1) (sum_so_far + of_int (xs ! nat i))
         else Inl Index_out_of_bounds)
      else Inr sum_so_far)"
  by pat_completeness auto
termination
  by (relation "measure (\<lambda>(xs, n, i, sum_so_far). nat (n - i))") auto

definition calculate_average :: "gauge \<Rightarrow> error + rat" where
  "calculate_average s =
     (case sum_samples (samples s) (samples_to_average s) 0 0.0 of
        Inl e \<Rightarrow> Inl e
      | Inr sum_of_samples \<Rightarrow>
          if samples_to_average s = 0 then Inl Division_by_zero
          else Inr (sum_of_samples / of_int (samples_to_average s)))"

definition loop ::
    "16 word \<Rightarrow> gauge \<Rightarrow> 32 word \<Rightarrow> 10 word \<Rightarrow> error + gauge \<times> event list" where
  "loop boot_time_ms s millis adc =
     (let current_time_ms = current_time_ms_of millis;
          delta_ms = delta_ms_of current_time_ms (last_update_time_ms s);
          out = diagnostics (in_startup_mode s) (last_update_time_ms s) current_time_ms delta_ms
      in if early_return (in_startup_mode s) delta_ms then Inr (s, out)
         else
           let out = out @ [Serial_println ''Passed early return check''];
               s = s\<lparr>in_startup_mode :=
                       next_startup_mode boot_time_ms (in_startup_mode s) current_time_ms\<rparr>;
               sensor_value = uint adc;
               out = out @ [Analog_read A1]
           in case update_cache s sensor_value of
                Inl e \<Rightarrow> Inl e
              | Inr s \<Rightarrow>
                 (case calculate_average s of
                    Inl e \<Rightarrow> Inl e
                  | Inr average_sensor_value \<Rightarrow>
                     (let gallons = estimate_gallons_remaining_from_reading average_sensor_value
                      in case get_num_display_blocks_for_gallons gallons of
                           Inl e \<Rightarrow> Inl e
                         | Inr num_blocks \<Rightarrow>
                            (case float_to_int average_sensor_value of
                               Inl e \<Rightarrow> Inl e
                             | Inr shown_value \<Rightarrow>
                                 Inr (s\<lparr>last_update_time_ms := current_time_ms\<rparr>,
                                      out @ [Show_gas_meter num_blocks,
                                             Show_gas_stats 1 shown_value gallons])))))"

subsection \<open>Repeated calls\<close>

text \<open>
  The Arduino core calls \<^verbatim>\<open>loop\<close> forever.  A run is given by what the clock and the
  converter return at each call; it ends at the first undefined step.  \<open>pushes\<close> repeats
  the cache update alone, once for each value of a list.
\<close>

fun pushes :: "gauge \<Rightarrow> int list \<Rightarrow> error + gauge" where
  "pushes s [] = Inr s"
| "pushes s (v # vs) =
     (case update_cache s v of Inl e \<Rightarrow> Inl e | Inr s' \<Rightarrow> pushes s' vs)"

fun run :: "16 word \<Rightarrow> gauge \<Rightarrow> (32 word \<times> 10 word) list \<Rightarrow> error + gauge \<times> event list" where
  "run boot_time_ms s [] = Inr (s, [])"
| "run boot_time_ms s ((millis, adc) # polls) =
     (case loop boot_time_ms s millis adc of
        Inl e \<Rightarrow> Inl e
      | Inr (s', out) \<Rightarrow>
         (case run boot_time_ms s' polls of
            Inl e \<Rightarrow> Inl e
          | Inr (s'', out') \<Rightarrow> Inr (s'', out @ out')))"

fun run_two_stage ::
    "16 word \<Rightarrow> scheduler \<Rightarrow> (32 word \<times> 10 word) list \<Rightarrow> error + scheduler \<times> event list" where
  "run_two_stage boot_time_ms s [] = Inr (s, [])"
| "run_two_stage boot_time_ms s ((millis, adc) # polls) =
     (case loop_two_stage boot_time_ms s millis adc of
        Inl e \<Rightarrow> Inl e
      | Inr (s', out) \<Rightarrow>
         (case run_two_stage boot_time_ms s' polls of
            Inl e \<Rightarrow> Inl e
          | Inr (s'', out') \<Rightarrow> Inr (s'', out @ out')))"

text \<open>
  The cache as the sketch keeps it between two calls: the array has its declared size, the
  write index and the count are in range, and what is stored are 10-bit readings.
\<close>

definition cache_ok :: "gauge \<Rightarrow> bool" where
  "cache_ok s \<longleftrightarrow>
     int (length (samples s)) = MAX_SAMPLES \<and>
     0 \<le> next_sample s \<and> next_sample s < MAX_SAMPLES \<and>
     0 \<le> samples_to_average s \<and> samples_to_average s \<le> MAX_SAMPLES \<and>
     list_all (\<lambda>v. 0 \<le> v \<and> v \<le> 1023) (samples s)"

subsection \<open>The schedule as the specification words it\<close>

text \<open>
  Sampling is due when the clock has wrapped (now is below the time of the last sample)
  or the time elapsed since the last sample reaches the interval of the mode: 500 ms in
  startup mode, 5000 ms in normal mode.
\<close>

definition sample_is_due :: "bool \<Rightarrow> 16 word \<Rightarrow> 16 word \<Rightarrow> bool" where
  "sample_is_due startup now last_sample_time \<longleftrightarrow>
     uint now < uint last_sample_time \<or>
     (if startup then 500 else 5000) \<le> uint now - uint last_sample_time"

section \<open>The display quantizer\<close>

text \<open>
  The cast of \<^const>\<open>float_to_int\<close> is the truncation toward zero of the specification
  wherever it is defined.
\<close>

lemma float_to_int_eq:
  "float_to_int x =
     (if - 32769 < x \<and> x < 32768 then Inr (truncate_toward_zero x)
      else Inl Conversion_out_of_range)"
proof (cases "0 \<le> x")
  case True
  then have "\<lfloor>x\<rfloor> \<ge> 0" by simp
  moreover have "\<lfloor>x\<rfloor> \<le> 32767 \<longleftrightarrow> x < 32768"
    using floor_less_iff [of x 32768] by simp
  ultimately show ?thesis using True
    by (simp add: float_to_int_def truncate_toward_zero_def INT_MIN_def INT_MAX_def Let_def)
next
  case False
  then have neg: "x < 0" by simp
  have eq: "float_to_int x =
      (if INT_MIN \<le> \<lceil>x\<rceil> \<and> \<lceil>x\<rceil> \<le> INT_MAX then Inr \<lceil>x\<rceil> else Inl Conversion_out_of_range)"
    using neg by (simp add: float_to_int_def Let_def)
  have tz: "truncate_toward_zero x = \<lceil>x\<rceil>"
    using neg by (simp add: truncate_toward_zero_def ceiling_def)
  have b: "- 32768 \<le> \<lceil>x\<rceil> \<longleftrightarrow> - 32769 < x"
    using less_ceiling_iff [of "- 32769" x] by simp
  have a: "\<lceil>x\<rceil> \<le> 32767"
    using neg by (simp add: ceiling_le_iff)
  show ?thesis
    unfolding eq tz INT_MIN_def INT_MAX_def using a b neg by auto
qed

lemma truncate_toward_zero_mono:
  "x \<le> y \<Longrightarrow> truncate_toward_zero x \<le> truncate_toward_zero y"
  unfolding truncate_toward_zero_def
  by (auto simp: floor_mono intro: order_trans [of _ 0])

lemma truncate_toward_zero_ge:
  "of_int k \<le> x \<Longrightarrow> k \<le> truncate_toward_zero x"
  using truncate_toward_zero_mono [of "of_int k" x]
  by (simp add: truncate_toward_zero_def split: if_splits)

lemma truncate_toward_zero_le:
  "x \<le> of_int k \<Longrightarrow> truncate_toward_zero x \<le> k"
  using truncate_toward_zero_mono [of x "of_int k"]
  by (simp add: truncate_toward_zero_def split: if_splits)

lemma truncate_toward_zero_neg: "x < 0 \<Longrightarrow> truncate_toward_zero x = \<lceil>x\<rceil>"
  by (simp add: truncate_toward_zero_def ceiling_def)

lemma truncate_toward_zero_nonneg: "0 \<le> x \<Longrightarrow> truncate_toward_zero x = \<lfloor>x\<rfloor>"
  by (simp add: truncate_toward_zero_def)

lemma truncate_toward_zero_gt:
  assumes "of_int k - 1 < x" and "k \<le> 0"
  shows "k \<le> truncate_toward_zero x"
proof (cases "x < 0")
  case True
  have "k - 1 < \<lceil>x\<rceil>"
    using assms(1) by (simp add: less_ceiling_iff)
  then show ?thesis using True by (simp add: truncate_toward_zero_neg)
next
  case False
  then have nn: "0 \<le> x" by simp
  then have "0 \<le> \<lfloor>x\<rfloor>" by simp
  with assms(2) have "k \<le> \<lfloor>x\<rfloor>" by linarith
  then show ?thesis by (simp only: truncate_toward_zero_nonneg [OF nn])
qed

lemma truncate_toward_zero_lt:
  assumes "x < of_int k" and "0 < k"
  shows "truncate_toward_zero x < k"
proof (cases "x < 0")
  case True
  then have "\<lceil>x\<rceil> \<le> 0" by (simp add: ceiling_le_iff)
  with assms(2) have "\<lceil>x\<rceil> < k" by linarith
  then show ?thesis by (simp only: truncate_toward_zero_neg [OF True])
next
  case False
  then show ?thesis using assms(1) by (simp add: truncate_toward_zero_nonneg floor_less_iff)
qed

lemma blocks_eq:
  "get_num_display_blocks_for_gallons gallons =
     (if - 32769 < gallons \<and> gallons < 32768 then
        (if - 32766 \<le> truncate_toward_zero gallons
         then Inr (clamp (truncate_toward_zero gallons - 2) 0 16)
         else Inl Signed_overflow)
      else Inl Conversion_out_of_range)"
proof -
  have "truncate_toward_zero gallons \<le> 32768" if "gallons < 32768"
    using truncate_toward_zero_le [of gallons 32768] that by simp
  then show ?thesis
  by (auto simp: get_num_display_blocks_for_gallons_def float_to_int_eq int_sub_def
      INT_MIN_def INT_MAX_def clamp_def)
qed


lemma blocks_in_range:
  assumes "- 32767 < gallons" "gallons < 32768"
  shows "get_num_display_blocks_for_gallons gallons =
           Inr (clamp (truncate_toward_zero gallons - 2) 0 16)"
proof -
  have "- 32766 \<le> truncate_toward_zero gallons"
    using truncate_toward_zero_gt [of "- 32766" gallons] assms by simp
  then show ?thesis using assms by (simp add: blocks_eq)
qed

lemma blocks_defined_iff:
  "(\<exists>n. get_num_display_blocks_for_gallons gallons = Inr n) \<longleftrightarrow>
     - 32767 < gallons \<and> gallons < 32768"
proof (cases "- 32767 < gallons \<and> gallons < 32768")
  case True
  then show ?thesis by (simp add: blocks_in_range)
next
  case False
  have "truncate_toward_zero gallons \<le> - 32767" if "gallons \<le> - 32767"
    using truncate_toward_zero_le [of gallons "- 32767"] that by simp
  then have "get_num_display_blocks_for_gallons gallons = Inl Signed_overflow \<or>
      get_num_display_blocks_for_gallons gallons = Inl Conversion_out_of_range"
    using False by (auto simp: blocks_eq)
  then show ?thesis using False by auto
qed

text \<open>
  Claim C3, as the code has it.  For every gallons value with \<open>-32767 < gallons < 32768\<close>
  (the values for which both the cast to the 16-bit \<^verbatim>\<open>int\<close> and the subtraction of 2
  are defined, see \<open>blocks_defined_iff\<close>) the quantizer returns
  \<open>clamp (truncate-toward-zero gallons - 2) 0 16\<close>; in particular every such value below 3
  gives 0 blocks and every such value of at least 18 gives 16 blocks.
\<close>

theorem quantizer_is_clamped_truncation:
  assumes "- 32767 < gallons" and "gallons < 32768"
  shows "get_num_display_blocks_for_gallons gallons =
           Inr (clamp (truncate_toward_zero gallons - 2) 0 16) \<and>
         (gallons < 3 \<longrightarrow> get_num_display_blocks_for_gallons gallons = Inr 0) \<and>
         (18 \<le> gallons \<longrightarrow> get_num_display_blocks_for_gallons gallons = Inr 16)"
proof -
  have low: "truncate_toward_zero gallons \<le> 2" if "gallons < 3"
    using truncate_toward_zero_lt [of gallons 3] that by simp
  have high: "18 \<le> truncate_toward_zero gallons" if "18 \<le> gallons"
    using truncate_toward_zero_ge [of 18 gallons] that by simp
  show ?thesis
    using low high by (auto simp: blocks_in_range [OF assms] clamp_def)
qed

theorem quantizer_is_clamped_truncation_witness:
  "get_num_display_blocks_for_gallons (5 / 2) = Inr 0 \<and>
   get_num_display_blocks_for_gallons (- (7 / 2)) = Inr 0 \<and>
   get_num_display_blocks_for_gallons 19 = Inr 16"
  using quantizer_is_clamped_truncation [of "5 / 2", THEN conjunct2, THEN conjunct1]
    quantizer_is_clamped_truncation [of "- (7 / 2)", THEN conjunct2, THEN conjunct1]
    quantizer_is_clamped_truncation [of 19, THEN conjunct2, THEN conjunct2]
  by simp

text \<open>
  Claim C3 as stated speaks of every gallons input.  At 40000 gallons the integral part
  does not fit the 16-bit \<^verbatim>\<open>int\<close>, the cast is undefined and the sketch does not
  promise the 16 blocks that the clamp formula gives.
\<close>

theorem quantizer_undefined_at_40000:
  "get_num_display_blocks_for_gallons 40000 = Inl Conversion_out_of_range \<and>
   clamp (truncate_toward_zero 40000 - 2) 0 16 = 16"
  by (simp add: blocks_eq clamp_def truncate_toward_zero_def)

text \<open>
  Claim C4, as the code has it.  For all gallons values \<open>x \<le> y\<close> inside
  \<open>-32767 < _ < 32768\<close>, negative ones included, the quantizer gives no more blocks for
  \<open>x\<close> than for \<open>y\<close>, and both results lie between 0 and 16.
\<close>

theorem quantizer_monotone_bounded:
  assumes "- 32767 < x" and "x \<le> y" and "y < 32768"
  shows "\<exists>a b. get_num_display_blocks_for_gallons x = Inr a \<and>
               get_num_display_blocks_for_gallons y = Inr b \<and>
               a \<le> b \<and> 0 \<le> a \<and> a \<le> 16 \<and> 0 \<le> b \<and> b \<le> 16"
proof -
  have x: "get_num_display_blocks_for_gallons x = Inr (clamp (truncate_toward_zero x - 2) 0 16)"
    using assms by (intro blocks_in_range) auto
  have y: "get_num_display_blocks_for_gallons y = Inr (clamp (truncate_toward_zero y - 2) 0 16)"
    using assms by (intro blocks_in_range) auto
  have "truncate_toward_zero x \<le> truncate_toward_zero y"
    using assms(2) by (rule truncate_toward_zero_mono)
  then show ?thesis
    unfolding x y by (auto simp: clamp_def)
qed

theorem quantizer_monotone_bounded_witness:
  "\<exists>a b. get_num_display_blocks_for_gallons (- (1 / 2)) = Inr a \<and>
         get_num_display_blocks_for_gallons (7 / 2) = Inr b \<and>
         a \<le> b \<and> 0 \<le> a \<and> a \<le> 16 \<and> 0 \<le> b \<and> b \<le> 16"
  using quantizer_monotone_bounded [of "- (1 / 2)" "7 / 2"] by simp

text \<open>
  Claim C4 as stated orders the results of every pair of inputs.  At \<open>-32767\<close> gallons the
  cast gives \<open>-32767\<close> and \<^verbatim>\<open>gallon_floor - 2\<close> overflows the 16-bit \<^verbatim>\<open>int\<close>: the
  result is undefined (an AVR that wraps around would show 16 blocks), so it is not
  bounded by the 0 blocks of the larger input 0.
\<close>

theorem quantizer_overflow_at_minus_32767:
  "(- 32767 :: rat) \<le> 0 \<and>
   get_num_display_blocks_for_gallons (- 32767) = Inl Signed_overflow \<and>
   get_num_display_blocks_for_gallons 0 = Inr 0"
  by (simp add: blocks_eq clamp_def truncate_toward_zero_def)

section \<open>The calibration example\<close>

text \<open>
  Every gallons value from 14 up to, not including, 15 gives 12 blocks: the count of the
  example below does not hang on the last bits of the float computation.
\<close>

lemma twelve_blocks:
  assumes "14 \<le> gallons" and "gallons < 15"
  shows "get_num_display_blocks_for_gallons gallons = Inr 12"
proof -
  have "truncate_toward_zero gallons = 14"
    using assms by (simp add: truncate_toward_zero_def floor_eq_iff)
  then show ?thesis
    using assms by (simp add: blocks_in_range clamp_def)
qed

text \<open>
  Claim C2, as the code has it.  In the second sketch the reading 243 gives a normalized
  reading of about 0.359, a quadratic stage of about 0.237, about 25.7 ohms, about 14.27
  gallons (14.3 to one decimal, not 14.1) and exactly 12 blocks.
\<close>

theorem two_stage_example_243:
  "\<bar>norm_reading 243 - 0.359\<bar> < 0.0005 \<and>
   \<bar>norm_ohmage (norm_reading 243) - 0.237\<bar> < 0.0005 \<and>
   \<bar>estimate_ohmage_from_reading 243 - 25.7\<bar> < 0.05 \<and>
   \<bar>get_gallons_for_ohmage (estimate_ohmage_from_reading 243) - 14.27\<bar> < 0.005 \<and>
   get_num_display_blocks_for_gallons
     (get_gallons_for_ohmage (estimate_ohmage_from_reading 243)) = Inr 12"
proof -
  have n: "norm_reading 243 = 163 / 454"
    by (simp add: norm_reading_def)
  have q: "norm_ohmage (163 / 454) = 488346533 / 2061160000"
    by (simp add: norm_ohmage_def)
  have e: "estimate_ohmage_from_reading 243 = 529569733 / 20611600"
    by (simp add: estimate_ohmage_from_reading_def n q)
  have g: "get_gallons_for_ohmage (529569733 / 20611600) = 367583442659 / 25764500000"
    by (simp add: get_gallons_for_ohmage_def)
  have b: "get_num_display_blocks_for_gallons (367583442659 / 25764500000) = Inr 12"
  proof -
    have "truncate_toward_zero (367583442659 / 25764500000) = 14"
      by (simp add: truncate_toward_zero_def floor_eq_iff)
    then show ?thesis
      by (simp add: blocks_in_range clamp_def)
  qed
  show ?thesis
    unfolding e g b unfolding n q by simp
qed

text \<open>
  Claim C2 as stated puts the gallons at about 14.1: the sketch computes more than 14.26,
  which no rounding to one decimal turns into 14.1.
\<close>

theorem gallons_for_243_exceed_14_26:
  "get_gallons_for_ohmage (estimate_ohmage_from_reading 243) > 14.26 \<and>
   get_gallons_for_ohmage (estimate_ohmage_from_reading 243) - 14.1 > 0.16"
  by (simp add: get_gallons_for_ohmage_def estimate_ohmage_from_reading_def
      norm_ohmage_def norm_reading_def)

section \<open>The schedule\<close>

lemma early_return_iff:
  "early_return startup delta_ms \<longleftrightarrow>
     uint delta_ms < 500 \<or> (\<not> startup \<and> uint delta_ms < 5000)"
  by (simp add: early_return_def STARTUP_SAMPLE_RATE_MS_def NORMAL_SAMPLE_RATE_S_def
      word_less_def)

lemma uint_delta_ms_of:
  "uint (delta_ms_of current_time_ms previous) =
     (if uint current_time_ms < uint previous then 30000
      else uint current_time_ms - uint previous)"
  by (simp add: delta_ms_of_def word_less_def uint_sub_lem [THEN iffD1])

lemma due_iff:
  "\<not> early_return startup (delta_ms_of current_time_ms previous) \<longleftrightarrow>
     sample_is_due startup current_time_ms previous"
  by (auto simp: early_return_iff uint_delta_ms_of sample_is_due_def)

lemma next_startup_mode_iff:
  "next_startup_mode boot_time_ms startup current_time_ms \<longleftrightarrow>
     startup \<and> uint (current_time_ms - boot_time_ms) < 5000"
  by (simp add: next_startup_mode_def STARTUP_SAMPLE_DURATION_S_def word_less_def)

lemma diagnostics_quiet:
  "\<not> list_ex is_sensor_read (diagnostics startup previous current_time_ms delta_ms)"
  "\<not> list_ex is_render (diagnostics startup previous current_time_ms delta_ms)"
  by (simp_all add: diagnostics_def)

section \<open>One call of \<^verbatim>\<open>loop\<close> in the second sketch\<close>

text \<open>
  A 10-bit reading keeps the gallons far inside the range of \<^verbatim>\<open>int\<close>, so the call is
  defined for every state, clock value and reading.
\<close>

lemma norm_ohmage_bounds:
  assumes "- 1 \<le> x" and "x \<le> 3"
  shows "- 1 \<le> norm_ohmage x" and "norm_ohmage x \<le> 7"
proof -
  define sq where "sq = x * x"
  have "\<bar>x\<bar> \<le> \<bar>3\<bar>" using assms by simp
  then have "x\<^sup>2 \<le> 3\<^sup>2" by (simp only: abs_le_square_iff)
  then have hi: "sq \<le> 9" by (simp add: sq_def power2_eq_square)
  have lo: "0 \<le> sq" by (simp add: sq_def)
  have eq: "norm_ohmage x = 0.5387 * sq + 0.4665 * x"
    by (simp add: norm_ohmage_def sq_def)
  show "- 1 \<le> norm_ohmage x" unfolding eq using lo assms by simp
  show "norm_ohmage x \<le> 7" unfolding eq using hi assms by simp
qed

lemma norm_reading_bounds:
  assumes "0 \<le> reading" and "reading \<le> 1023"
  shows "- 1 \<le> norm_reading reading" and "norm_reading reading \<le> 3"
proof -
  have "(of_int reading :: rat) \<le> of_int 1023" "(of_int 0 :: rat) \<le> of_int reading"
    using assms by (simp_all only: of_int_le_iff)
  then have "(of_int reading :: rat) \<le> 1023" "(0 :: rat) \<le> of_int reading"
    by simp_all
  then show "- 1 \<le> norm_reading reading" "norm_reading reading \<le> 3"
    by (simp_all add: norm_reading_def field_simps)
qed

lemma two_stage_gallons_bounds:
  assumes "0 \<le> reading" and "reading \<le> 1023"
  shows "- 200 < get_gallons_for_ohmage (estimate_ohmage_from_reading reading)"
    and "get_gallons_for_ohmage (estimate_ohmage_from_reading reading) < 100"
proof -
  note n = norm_reading_bounds [OF assms]
  note q = norm_ohmage_bounds [OF n]
  define y where "y = norm_ohmage (norm_reading reading)"
  have eq: "get_gallons_for_ohmage (estimate_ohmage_from_reading reading) =
      21.4128 - 30.16 * y"
    by (simp add: get_gallons_for_ohmage_def estimate_ohmage_from_reading_def y_def field_simps)
  show "- 200 < get_gallons_for_ohmage (estimate_ohmage_from_reading reading)"
    unfolding eq using q(2) by (simp add: y_def [symmetric])
  show "get_gallons_for_ohmage (estimate_ohmage_from_reading reading) < 100"
    unfolding eq using q(1) by (simp add: y_def [symmetric])
qed

lemma uint_adc_bounds: "0 \<le> uint (adc :: 10 word)" "uint (adc :: 10 word) \<le> 1023"
  using uint_bounded [of adc] by simp_all

lemma two_stage_blocks:
  fixes adc :: "10 word"
  shows "get_num_display_blocks_for_gallons
           (get_gallons_for_ohmage (estimate_ohmage_from_reading (uint adc))) =
         Inr (clamp (truncate_toward_zero
           (get_gallons_for_ohmage (estimate_ohmage_from_reading (uint adc))) - 2) 0 16)"
  using two_stage_gallons_bounds [OF uint_adc_bounds [of adc]]
  by (intro blocks_in_range) simp_all

lemma loop_two_stage_eq:
  "loop_two_stage boot_time_ms s millis adc =
     (let current_time_ms = current_time_ms_of millis;
          delta_ms = delta_ms_of current_time_ms (last_update_time_ms s);
          out = diagnostics (in_startup_mode s) (last_update_time_ms s) current_time_ms delta_ms;
          ohmage = estimate_ohmage_from_reading (uint adc);
          gallons = get_gallons_for_ohmage ohmage
      in if early_return (in_startup_mode s) delta_ms then Inr (s, out)
         else Inr (\<lparr>last_update_time_ms = current_time_ms,
                    in_startup_mode =
                      next_startup_mode boot_time_ms (in_startup_mode s) current_time_ms\<rparr>,
                   out @ [Serial_println ''Passed early return check'', Analog_read A0,
                          Show_gas_meter (clamp (truncate_toward_zero gallons - 2) 0 16),
                          Show_gas_stats_ohmage (uint adc) ohmage gallons]))"
  by (simp add: loop_two_stage_def Let_def two_stage_blocks)

section \<open>One call of \<^verbatim>\<open>loop\<close> in \<^verbatim>\<open>gas-gauge.ino\<close>\<close>

declare sum_samples.simps [simp del]

lemma sum_samples_eq:
  "0 \<le> i \<Longrightarrow> n \<le> int (length xs) \<Longrightarrow>
     sum_samples xs n i acc = Inr (acc + of_int (\<Sum>k = nat i..<nat n. xs ! k))"
proof (induction xs n i acc rule: sum_samples.induct)
  case (1 xs n i acc)
  show ?case
  proof (cases "i < n")
    case True
    then have idx: "0 \<le> i \<and> i < int (length xs)" using "1.prems" by simp
    have step: "sum_samples xs n (i + 1) (acc + of_int (xs ! nat i)) =
        Inr (acc + of_int (xs ! nat i) + of_int (\<Sum>k = nat (i + 1)..<nat n. xs ! k))"
      using "1.IH" [OF True idx] "1.prems" by simp
    have "nat i < nat n" using True "1.prems" by simp
    then have "(\<Sum>k = nat i..<nat n. xs ! k) = xs ! nat i + (\<Sum>k = Suc (nat i)..<nat n. xs ! k)"
      by (rule sum.atLeast_Suc_lessThan)
    moreover have "nat (i + 1) = Suc (nat i)" using "1.prems" by simp
    ultimately show ?thesis
      using True idx step by (subst sum_samples.simps) simp
  next
    case False
    then show ?thesis by (subst sum_samples.simps) simp
  qed
qed

lemma sum_nth_take: "n \<le> length xs \<Longrightarrow> (\<Sum>k = 0..<n. (xs :: int list) ! k) = sum_list (take n xs)"
  by (simp add: sum_list_sum_nth)

lemma sum_list_bounds:
  assumes "list_all (\<lambda>v. 0 \<le> v \<and> v \<le> (1023 :: int)) xs"
  shows "0 \<le> sum_list xs \<and> sum_list xs \<le> 1023 * int (length xs)"
  using assms by (induction xs) auto

lemma calculate_average_eq:
  assumes "samples_to_average s \<le> int (length (samples s))" and "1 \<le> samples_to_average s"
  shows "calculate_average s =
     Inr (of_int (sum_list (take (nat (samples_to_average s)) (samples s))) /
          of_int (samples_to_average s))"
proof -
  have "nat (samples_to_average s) \<le> length (samples s)" using assms by simp
  then show ?thesis
    using assms by (simp add: calculate_average_def sum_samples_eq sum_nth_take)
qed

lemma average_bounds:
  assumes "list_all (\<lambda>v. 0 \<le> v \<and> v \<le> (1023 :: int)) xs" and "1 \<le> n" and "n \<le> int (length xs)"
  shows "0 \<le> (of_int (sum_list (take (nat n) xs)) / of_int n :: rat)"
    and "(of_int (sum_list (take (nat n) xs)) / of_int n :: rat) \<le> 1023"
proof -
  have "list_all (\<lambda>v. 0 \<le> v \<and> v \<le> (1023 :: int)) (take (nat n) xs)"
    using assms(1) by (auto simp: list_all_iff dest: in_set_takeD)
  from sum_list_bounds [OF this]
  have "0 \<le> sum_list (take (nat n) xs)"
    "sum_list (take (nat n) xs) \<le> 1023 * int (length (take (nat n) xs))"
    by simp_all
  moreover have "int (length (take (nat n) xs)) = n"
    using assms(2,3) by simp
  ultimately have b: "0 \<le> sum_list (take (nat n) xs)" "sum_list (take (nat n) xs) \<le> 1023 * n"
    by simp_all
  have pos: "(0 :: rat) < of_int n" using assms(2) by simp
  show "0 \<le> (of_int (sum_list (take (nat n) xs)) / of_int n :: rat)"
    using b(1) pos by simp
  have "(of_int (sum_list (take (nat n) xs)) :: rat) \<le> of_int (1023 * n)"
    using b(2) by (simp only: of_int_le_iff)
  then show "(of_int (sum_list (take (nat n) xs)) / of_int n :: rat) \<le> 1023"
    using pos by (simp add: pos_divide_le_eq)
qed

lemma update_cache_ok:
  assumes "cache_ok s" and "0 \<le> v" and "v \<le> 1023"
  shows "\<exists>s1. update_cache s v = Inr s1 \<and> cache_ok s1 \<and> 1 \<le> samples_to_average s1 \<and>
           last_update_time_ms s1 = last_update_time_ms s \<and>
           in_startup_mode s1 = in_startup_mode s"
proof -
  have "list_all (\<lambda>v. 0 \<le> v \<and> v \<le> 1023) ((samples s)[nat (next_sample s) := v])"
    using assms by (auto simp: cache_ok_def list_all_iff dest!: set_update_subset_insert [THEN subsetD])
  then show ?thesis
    using assms(1) by (auto simp: update_cache_def cache_ok_def MAX_SAMPLES_def Let_def)
qed

lemma gauge_display_defined:
  assumes "0 \<le> average_sensor_value" and "average_sensor_value \<le> 1023"
  shows "float_to_int average_sensor_value = Inr (truncate_toward_zero average_sensor_value)"
    and "get_num_display_blocks_for_gallons
           (estimate_gallons_remaining_from_reading average_sensor_value) =
         Inr (clamp (truncate_toward_zero
           (estimate_gallons_remaining_from_reading average_sensor_value) - 2) 0 16)"
proof -
  show "float_to_int average_sensor_value = Inr (truncate_toward_zero average_sensor_value)"
    using assms by (simp add: float_to_int_eq)
  show "get_num_display_blocks_for_gallons
           (estimate_gallons_remaining_from_reading average_sensor_value) =
         Inr (clamp (truncate_toward_zero
           (estimate_gallons_remaining_from_reading average_sensor_value) - 2) 0 16)"
    using assms
    by (intro blocks_in_range) (simp_all add: estimate_gallons_remaining_from_reading_def)
qed

lemma loop_due:
  assumes ok: "cache_ok s"
    and due: "\<not> early_return (in_startup_mode s)
               (delta_ms_of (current_time_ms_of millis) (last_update_time_ms s))"
  shows "\<exists>s1 average_sensor_value.
           update_cache
             (s\<lparr>in_startup_mode := next_startup_mode boot_time_ms (in_startup_mode s)
                                     (current_time_ms_of millis)\<rparr>) (uint adc) = Inr s1 \<and>
           cache_ok s1 \<and> 1 \<le> samples_to_average s1 \<and>
           calculate_average s1 = Inr average_sensor_value \<and>
           average_sensor_value =
             of_int (sum_list (take (nat (samples_to_average s1)) (samples s1))) /
             of_int (samples_to_average s1) \<and>
           loop boot_time_ms s millis adc =
             Inr (s1\<lparr>last_update_time_ms := current_time_ms_of millis\<rparr>,
                  diagnostics (in_startup_mode s) (last_update_time_ms s)
                    (current_time_ms_of millis)
                    (delta_ms_of (current_time_ms_of millis) (last_update_time_ms s)) @
                  [Serial_println ''Passed early return check'', Analog_read A1,
                   Show_gas_meter (clamp (truncate_toward_zero
                     (estimate_gallons_remaining_from_reading average_sensor_value) - 2) 0 16),
                   Show_gas_stats 1 (truncate_toward_zero average_sensor_value)
                     (estimate_gallons_remaining_from_reading average_sensor_value)])"
proof -
  let ?s0 = "s\<lparr>in_startup_mode := next_startup_mode boot_time_ms (in_startup_mode s)
                                     (current_time_ms_of millis)\<rparr>"
  have "cache_ok ?s0" using ok by (simp add: cache_ok_def)
  from update_cache_ok [OF this uint_adc_bounds [of adc]]
  obtain s1 where s1: "update_cache ?s0 (uint adc) = Inr s1" "cache_ok s1"
    "1 \<le> samples_to_average s1" by blast
  define a :: rat where "a = of_int (sum_list (take (nat (samples_to_average s1)) (samples s1))) /
             of_int (samples_to_average s1)"
  have len: "samples_to_average s1 \<le> int (length (samples s1))"
    using s1(2) by (simp add: cache_ok_def)
  have avg: "calculate_average s1 = Inr a"
    unfolding a_def using len s1(3) by (rule calculate_average_eq)
  have "list_all (\<lambda>v. 0 \<le> v \<and> v \<le> 1023) (samples s1)"
    using s1(2) by (simp add: cache_ok_def)
  from average_bounds [OF this s1(3) len] have ab: "0 \<le> a" "a \<le> 1023"
    by (simp_all add: a_def)
  note d = gauge_display_defined [OF ab]
  have "loop boot_time_ms s millis adc =
             Inr (s1\<lparr>last_update_time_ms := current_time_ms_of millis\<rparr>,
                  diagnostics (in_startup_mode s) (last_update_time_ms s)
                    (current_time_ms_of millis)
                    (delta_ms_of (current_time_ms_of millis) (last_update_time_ms s)) @
                  [Serial_println ''Passed early return check'', Analog_read A1,
                   Show_gas_meter (clamp (truncate_toward_zero
                     (estimate_gallons_remaining_from_reading a) - 2) 0 16),
                   Show_gas_stats 1 (truncate_toward_zero a)
                     (estimate_gallons_remaining_from_reading a)])"
    using due by (simp add: loop_def Let_def s1(1) avg d)
  then show ?thesis using s1 avg a_def by blast
qed

lemma loop_not_due:
  assumes "early_return (in_startup_mode s)
               (delta_ms_of (current_time_ms_of millis) (last_update_time_ms s))"
  shows "loop boot_time_ms s millis adc =
     Inr (s, diagnostics (in_startup_mode s) (last_update_time_ms s)
                    (current_time_ms_of millis)
                    (delta_ms_of (current_time_ms_of millis) (last_update_time_ms s)))"
  using assms by (simp add: loop_def Let_def)

section \<open>Polls, due or not\<close>

lemma update_cache_scheduler:
  assumes "update_cache s v = Inr s1"
  shows "in_startup_mode s1 = in_startup_mode s" and "last_update_time_ms s1 = last_update_time_ms s"
  using assms by (auto simp: update_cache_def Let_def split: if_splits)

lemma loop_result:
  assumes "loop boot_time_ms s millis adc = Inr (s', out)"
  shows "if early_return (in_startup_mode s)
              (delta_ms_of (current_time_ms_of millis) (last_update_time_ms s))
         then s' = s \<and>
              out = diagnostics (in_startup_mode s) (last_update_time_ms s)
                      (current_time_ms_of millis)
                      (delta_ms_of (current_time_ms_of millis) (last_update_time_ms s))
         else in_startup_mode s' =
                next_startup_mode boot_time_ms (in_startup_mode s) (current_time_ms_of millis) \<and>
              last_update_time_ms s' = current_time_ms_of millis \<and>
              list_ex is_sensor_read out \<and> list_ex is_render out"
proof (cases "early_return (in_startup_mode s)
              (delta_ms_of (current_time_ms_of millis) (last_update_time_ms s))")
  case True
  then show ?thesis using assms by (auto simp: loop_not_due)
next
  case False
  then show ?thesis
    using assms
    by (auto simp: loop_def Let_def split: sum.splits dest: update_cache_scheduler)
qed

lemma loop_two_stage_result:
  assumes "loop_two_stage boot_time_ms t millis adc = Inr (t', out)"
  shows "if early_return (in_startup_mode t)
              (delta_ms_of (current_time_ms_of millis) (last_update_time_ms t))
         then t' = t \<and>
              out = diagnostics (in_startup_mode t) (last_update_time_ms t)
                      (current_time_ms_of millis)
                      (delta_ms_of (current_time_ms_of millis) (last_update_time_ms t))
         else in_startup_mode t' =
                next_startup_mode boot_time_ms (in_startup_mode t) (current_time_ms_of millis) \<and>
              last_update_time_ms t' = current_time_ms_of millis \<and>
              list_ex is_sensor_read out \<and> list_ex is_render out"
  using assms by (auto simp: loop_two_stage_eq Let_def split: if_splits)

lemma loop_two_stage_defined:
  "\<exists>t' out. loop_two_stage boot_time_ms t millis adc = Inr (t', out)"
  by (simp add: loop_two_stage_eq Let_def)

lemma loop_defined:
  assumes "cache_ok s"
  shows "\<exists>s' out. loop boot_time_ms s millis adc = Inr (s', out) \<and> cache_ok s' \<and>
           (1 \<le> samples_to_average s \<or> list_ex is_sensor_read out
              \<longrightarrow> 1 \<le> samples_to_average s')"
proof (cases "early_return (in_startup_mode s)
              (delta_ms_of (current_time_ms_of millis) (last_update_time_ms s))")
  case True
  then show ?thesis using assms by (simp add: loop_not_due diagnostics_quiet)
next
  case False
  from loop_due [OF assms False, of boot_time_ms adc]
  obtain s1 a where s1: "cache_ok s1" "1 \<le> samples_to_average s1"
    and l: "loop boot_time_ms s millis adc =
        Inr (s1\<lparr>last_update_time_ms := current_time_ms_of millis\<rparr>,
          diagnostics (in_startup_mode s) (last_update_time_ms s)
                    (current_time_ms_of millis)
                    (delta_ms_of (current_time_ms_of millis) (last_update_time_ms s)) @
                  [Serial_println ''Passed early return check'', Analog_read A1,
                   Show_gas_meter (clamp (truncate_toward_zero
                     (estimate_gallons_remaining_from_reading a) - 2) 0 16),
                   Show_gas_stats 1 (truncate_toward_zero a)
                     (estimate_gallons_remaining_from_reading a)])"
    by blast
  have "cache_ok (s1\<lparr>last_update_time_ms := current_time_ms_of millis\<rparr>)"
    using s1(1) by (simp add: cache_ok_def)
  then show ?thesis using s1(2) l by simp
qed

lemma not_next_startup_mode: "\<not> next_startup_mode boot_time_ms False current_time_ms"
  by (simp add: next_startup_mode_def)

lemma loop_keeps_normal_mode:
  assumes "loop boot_time_ms s millis adc = Inr (s', out)" and "\<not> in_startup_mode s"
  shows "\<not> in_startup_mode s'"
  using loop_result [OF assms(1)] assms(2)
  by (auto simp: not_next_startup_mode split: if_splits)

lemma loop_two_stage_keeps_normal_mode:
  assumes "loop_two_stage boot_time_ms t millis adc = Inr (t', out)" and "\<not> in_startup_mode t"
  shows "\<not> in_startup_mode t'"
  using loop_two_stage_result [OF assms(1)] assms(2)
  by (auto simp: not_next_startup_mode split: if_splits)

lemma run_keeps_normal_mode:
  "run boot_time_ms s polls = Inr (s', out) \<Longrightarrow> \<not> in_startup_mode s \<Longrightarrow> \<not> in_startup_mode s'"
proof (induction polls arbitrary: s out)
  case Nil
  then show ?case by simp
next
  case (Cons p polls)
  obtain millis adc where p: "p = (millis, adc)" by (cases p)
  from Cons.prems(1) obtain s1 out1 out2 where
    a: "loop boot_time_ms s millis adc = Inr (s1, out1)" and
    b: "run boot_time_ms s1 polls = Inr (s', out2)"
    by (auto simp: p split: sum.splits)
  from loop_keeps_normal_mode [OF a Cons.prems(2)] have "\<not> in_startup_mode s1" .
  from Cons.IH [OF b this] show ?case .
qed

lemma run_two_stage_keeps_normal_mode:
  "run_two_stage boot_time_ms t polls = Inr (t', out) \<Longrightarrow> \<not> in_startup_mode t \<Longrightarrow>
     \<not> in_startup_mode t'"
proof (induction polls arbitrary: t out)
  case Nil
  then show ?case by simp
next
  case (Cons p polls)
  obtain millis adc where p: "p = (millis, adc)" by (cases p)
  from Cons.prems(1) obtain t1 out1 out2 where
    a: "loop_two_stage boot_time_ms t millis adc = Inr (t1, out1)" and
    b: "run_two_stage boot_time_ms t1 polls = Inr (t', out2)"
    by (auto simp: p split: sum.splits)
  from loop_two_stage_keeps_normal_mode [OF a Cons.prems(2)] have "\<not> in_startup_mode t1" .
  from Cons.IH [OF b this] show ?case .
qed

lemma loop_leaves_startup:
  assumes "loop boot_time_ms s millis adc = Inr (s', out)"
    and "in_startup_mode s" and "\<not> in_startup_mode s'"
  shows "sample_is_due True (current_time_ms_of millis) (last_update_time_ms s) \<and>
         list_ex is_sensor_read out \<and>
         5000 \<le> uint (current_time_ms_of millis - boot_time_ms)"
  using loop_result [OF assms(1)] assms(2,3)
  by (auto simp: next_startup_mode_iff due_iff [symmetric] split: if_splits)

lemma loop_two_stage_leaves_startup:
  assumes "loop_two_stage boot_time_ms t millis adc = Inr (t', out)"
    and "in_startup_mode t" and "\<not> in_startup_mode t'"
  shows "sample_is_due True (current_time_ms_of millis) (last_update_time_ms t) \<and>
         list_ex is_sensor_read out \<and>
         5000 \<le> uint (current_time_ms_of millis - boot_time_ms)"
  using loop_two_stage_result [OF assms(1)] assms(2,3)
  by (auto simp: next_startup_mode_iff due_iff [symmetric] split: if_splits)


lemma loop_two_stage_sampled:
  "\<exists>t' out. loop_two_stage boot_time_ms t millis adc = Inr (t', out) \<and>
     (list_ex is_sensor_read out \<longleftrightarrow>
        sample_is_due (in_startup_mode t) (current_time_ms_of millis) (last_update_time_ms t)) \<and>
     (list_ex is_render out \<longleftrightarrow>
        sample_is_due (in_startup_mode t) (current_time_ms_of millis) (last_update_time_ms t)) \<and>
     (sample_is_due (in_startup_mode t) (current_time_ms_of millis) (last_update_time_ms t)
        \<longrightarrow> last_update_time_ms t' = current_time_ms_of millis)"
proof -
  obtain t' out where l: "loop_two_stage boot_time_ms t millis adc = Inr (t', out)"
    using loop_two_stage_defined by blast
  from loop_two_stage_result [OF l] show ?thesis
    unfolding l by (auto simp: due_iff [symmetric] diagnostics_quiet split: if_splits)
qed

lemma loop_sampled:
  assumes "cache_ok s"
  shows "\<exists>s' out. loop boot_time_ms s millis adc = Inr (s', out) \<and> cache_ok s' \<and>
     (list_ex is_sensor_read out \<longleftrightarrow>
        sample_is_due (in_startup_mode s) (current_time_ms_of millis) (last_update_time_ms s)) \<and>
     (list_ex is_render out \<longleftrightarrow>
        sample_is_due (in_startup_mode s) (current_time_ms_of millis) (last_update_time_ms s)) \<and>
     (sample_is_due (in_startup_mode s) (current_time_ms_of millis) (last_update_time_ms s)
        \<longrightarrow> last_update_time_ms s' = current_time_ms_of millis)"
proof -
  obtain s' out where l: "loop boot_time_ms s millis adc = Inr (s', out)" and ok: "cache_ok s'"
    using loop_defined [OF assms] by blast
  from loop_result [OF l] ok show ?thesis
    unfolding l by (auto simp: due_iff [symmetric] diagnostics_quiet split: if_splits)
qed


text \<open>
  Claim C8.  On a poll where sampling is not due, \<^verbatim>\<open>loop\<close> returns the state it was
  given (mode flag, time of the last update and, in \<^verbatim>\<open>gas-gauge.ino\<close>, the cache with
  its write index and its count), reads no sensor and issues no render command.  What it
  does write is the diagnostic snapshot on the serial port, which every poll writes
  before the check.
\<close>

theorem poll_not_due_changes_nothing:
  "(\<not> sample_is_due (in_startup_mode s) (current_time_ms_of millis) (last_update_time_ms s) \<longrightarrow>
      (\<exists>out. loop boot_time_ms s millis adc = Inr (s, out) \<and>
             out = diagnostics (in_startup_mode s) (last_update_time_ms s)
                     (current_time_ms_of millis)
                     (delta_ms_of (current_time_ms_of millis) (last_update_time_ms s)) \<and>
             \<not> list_ex is_sensor_read out \<and> \<not> list_ex is_render out)) \<and>
   (\<not> sample_is_due (in_startup_mode t) (current_time_ms_of millis) (last_update_time_ms t) \<longrightarrow>
      (\<exists>out. loop_two_stage boot_time_ms t millis adc = Inr (t, out) \<and>
             out = diagnostics (in_startup_mode t) (last_update_time_ms t)
                     (current_time_ms_of millis)
                     (delta_ms_of (current_time_ms_of millis) (last_update_time_ms t)) \<and>
             \<not> list_ex is_sensor_read out \<and> \<not> list_ex is_render out))"
  by (simp add: due_iff [symmetric] loop_not_due loop_two_stage_eq Let_def diagnostics_quiet)

theorem poll_not_due_changes_nothing_witness:
  "\<not> sample_is_due (in_startup_mode (initial_gauge 0)) (current_time_ms_of 100)
       (last_update_time_ms (initial_gauge 0)) \<and>
   (\<exists>out. loop 0 (initial_gauge 0) 100 7 = Inr (initial_gauge 0, out) \<and>
          \<not> list_ex is_sensor_read out \<and> \<not> list_ex is_render out) \<and>
   \<not> sample_is_due (in_startup_mode (initial_scheduler 0)) (current_time_ms_of 100)
       (last_update_time_ms (initial_scheduler 0)) \<and>
   (\<exists>out. loop_two_stage 0 (initial_scheduler 0) 100 7 = Inr (initial_scheduler 0, out) \<and>
          \<not> list_ex is_sensor_read out \<and> \<not> list_ex is_render out)"
proof -
  have a: "\<not> sample_is_due (in_startup_mode (initial_gauge 0)) (current_time_ms_of 100)
       (last_update_time_ms (initial_gauge 0))"
    by (simp add: sample_is_due_def initial_gauge_def current_time_ms_of_def)
  have b: "\<not> sample_is_due (in_startup_mode (initial_scheduler 0)) (current_time_ms_of 100)
       (last_update_time_ms (initial_scheduler 0))"
    by (simp add: sample_is_due_def initial_scheduler_def current_time_ms_of_def)
  show ?thesis
    using a b poll_not_due_changes_nothing [of "initial_gauge 0" 100 0 7 "initial_scheduler 0"] by blast
qed


text \<open>
  Claim C7.  When the clock value of a poll is below the stored time of the last update,
  the elapsed time is taken to be 30000 ms instead of the wrapped difference, the early
  return is not taken in either mode, and the poll samples and renders.
\<close>

theorem clock_wraparound_forces_sample:
  assumes "current_time_ms_of millis < previous"
  shows "delta_ms_of (current_time_ms_of millis) previous = 30000 \<and>
         (\<forall>startup. \<not> early_return startup (delta_ms_of (current_time_ms_of millis) previous)) \<and>
         (last_update_time_ms t = previous \<longrightarrow>
            (\<exists>t' out. loop_two_stage boot_time_ms t millis adc = Inr (t', out) \<and>
               list_ex is_sensor_read out \<and> list_ex is_render out \<and>
               last_update_time_ms t' = current_time_ms_of millis)) \<and>
         (last_update_time_ms s = previous \<and> cache_ok s \<longrightarrow>
            (\<exists>s' out. loop boot_time_ms s millis adc = Inr (s', out) \<and>
               list_ex is_sensor_read out \<and> list_ex is_render out \<and>
               last_update_time_ms s' = current_time_ms_of millis))"
proof -
  have d: "delta_ms_of (current_time_ms_of millis) previous = 30000"
    using assms by (simp add: delta_ms_of_def)
  have e: "\<not> early_return startup (delta_ms_of (current_time_ms_of millis) previous)" for startup
    unfolding d by (simp add: early_return_iff)
  have due: "sample_is_due startup (current_time_ms_of millis) previous" for startup
    using e by (simp add: due_iff)
  have two: "\<exists>t' out. loop_two_stage boot_time_ms t millis adc = Inr (t', out) \<and>
               list_ex is_sensor_read out \<and> list_ex is_render out \<and>
               last_update_time_ms t' = current_time_ms_of millis"
    if "last_update_time_ms t = previous"
    using loop_two_stage_sampled [of boot_time_ms t millis adc] due that by auto
  have one: "\<exists>s' out. loop boot_time_ms s millis adc = Inr (s', out) \<and>
               list_ex is_sensor_read out \<and> list_ex is_render out \<and>
               last_update_time_ms s' = current_time_ms_of millis"
    if "last_update_time_ms s = previous" "cache_ok s"
    using loop_sampled [OF that(2), of boot_time_ms millis adc] due that(1) by auto
  show ?thesis using d e two one by blast
qed


lemma cache_ok_initial_gauge: "cache_ok (initial_gauge boot_time_ms)"
  by (simp add: cache_ok_def initial_gauge_def MAX_SAMPLES_def list_all_iff)

theorem clock_wraparound_forces_sample_witness:
  "current_time_ms_of 100 < 60000 \<and>
   delta_ms_of (current_time_ms_of 100) 60000 = 30000 \<and>
   (\<exists>t' out. loop_two_stage 0 \<lparr>last_update_time_ms = 60000, in_startup_mode = False\<rparr> 100 7 =
        Inr (t', out) \<and>
      list_ex is_sensor_read out \<and> list_ex is_render out \<and>
      last_update_time_ms t' = current_time_ms_of 100) \<and>
   cache_ok (initial_gauge 60000) \<and>
   (\<exists>s' out. loop 0 (initial_gauge 60000) 100 7 = Inr (s', out) \<and>
      list_ex is_sensor_read out \<and> list_ex is_render out \<and>
      last_update_time_ms s' = current_time_ms_of 100)"
proof -
  have w: "current_time_ms_of 100 < 60000"
    by (simp add: current_time_ms_of_def)
  have l: "last_update_time_ms (initial_gauge 60000) = 60000"
    by (simp add: initial_gauge_def)
  show ?thesis
    using clock_wraparound_forces_sample [OF w, of "\<lparr>last_update_time_ms = 60000, in_startup_mode = False\<rparr>" 0 7
        "initial_gauge 60000"]
      w l cache_ok_initial_gauge [of 60000]
    by simp
qed


text \<open>
  Claim C6.  A poll reads the sensor and renders exactly when sampling is due as the
  specification words it: the clock has wrapped, or the elapsed time reaches 500 ms in
  startup mode and 5000 ms in normal mode.  A poll that samples stores its clock value as
  the time of the last update, so the next poll that samples has wrapped or is a full
  interval later than it.
\<close>

theorem sample_iff_due:
  "(\<exists>t' out. loop_two_stage boot_time_ms t millis adc = Inr (t', out) \<and>
      (list_ex is_sensor_read out \<longleftrightarrow>
         sample_is_due (in_startup_mode t) (current_time_ms_of millis) (last_update_time_ms t)) \<and>
      (list_ex is_render out \<longleftrightarrow>
         sample_is_due (in_startup_mode t) (current_time_ms_of millis) (last_update_time_ms t)) \<and>
      (list_ex is_sensor_read out \<longrightarrow>
         last_update_time_ms t' = current_time_ms_of millis \<and>
         (\<forall>millis' adc' t'' out'.
            loop_two_stage boot_time_ms t' millis' adc' = Inr (t'', out') \<and>
            list_ex is_sensor_read out' \<longrightarrow>
            sample_is_due (in_startup_mode t') (current_time_ms_of millis')
              (current_time_ms_of millis)))) \<and>
   (cache_ok s \<longrightarrow>
     (\<exists>s' out. loop boot_time_ms s millis adc = Inr (s', out) \<and>
      (list_ex is_sensor_read out \<longleftrightarrow>
         sample_is_due (in_startup_mode s) (current_time_ms_of millis) (last_update_time_ms s)) \<and>
      (list_ex is_render out \<longleftrightarrow>
         sample_is_due (in_startup_mode s) (current_time_ms_of millis) (last_update_time_ms s)) \<and>
      (list_ex is_sensor_read out \<longrightarrow>
         last_update_time_ms s' = current_time_ms_of millis \<and>
         (\<forall>millis' adc' s'' out'.
            loop boot_time_ms s' millis' adc' = Inr (s'', out') \<and>
            list_ex is_sensor_read out' \<longrightarrow>
            sample_is_due (in_startup_mode s') (current_time_ms_of millis')
              (current_time_ms_of millis)))))"
proof (intro conjI impI)
  obtain t' out where l: "loop_two_stage boot_time_ms t millis adc = Inr (t', out)"
    and a: "list_ex is_sensor_read out \<longleftrightarrow>
        sample_is_due (in_startup_mode t) (current_time_ms_of millis) (last_update_time_ms t)"
    and b: "list_ex is_render out \<longleftrightarrow>
        sample_is_due (in_startup_mode t) (current_time_ms_of millis) (last_update_time_ms t)"
    and c: "sample_is_due (in_startup_mode t) (current_time_ms_of millis) (last_update_time_ms t)
        \<longrightarrow> last_update_time_ms t' = current_time_ms_of millis"
    using loop_two_stage_sampled [of boot_time_ms t millis adc] by blast
  have next_one: "sample_is_due (in_startup_mode t') (current_time_ms_of millis')
              (current_time_ms_of millis)"
    if "list_ex is_sensor_read out"
      "loop_two_stage boot_time_ms t' millis' adc' = Inr (t'', out')"
      "list_ex is_sensor_read out'" for millis' adc' t'' out'
    using loop_two_stage_sampled [of boot_time_ms t' millis' adc'] that a c by auto
  show "\<exists>t' out. loop_two_stage boot_time_ms t millis adc = Inr (t', out) \<and>
      (list_ex is_sensor_read out \<longleftrightarrow>
         sample_is_due (in_startup_mode t) (current_time_ms_of millis) (last_update_time_ms t)) \<and>
      (list_ex is_render out \<longleftrightarrow>
         sample_is_due (in_startup_mode t) (current_time_ms_of millis) (last_update_time_ms t)) \<and>
      (list_ex is_sensor_read out \<longrightarrow>
         last_update_time_ms t' = current_time_ms_of millis \<and>
         (\<forall>millis' adc' t'' out'.
            loop_two_stage boot_time_ms t' millis' adc' = Inr (t'', out') \<and>
            list_ex is_sensor_read out' \<longrightarrow>
            sample_is_due (in_startup_mode t') (current_time_ms_of millis')
              (current_time_ms_of millis)))"
    using l a b c next_one by blast
next
  assume ok: "cache_ok s"
  obtain s' out where l: "loop boot_time_ms s millis adc = Inr (s', out)"
    and ok': "cache_ok s'"
    and a: "list_ex is_sensor_read out \<longleftrightarrow>
        sample_is_due (in_startup_mode s) (current_time_ms_of millis) (last_update_time_ms s)"
    and b: "list_ex is_render out \<longleftrightarrow>
        sample_is_due (in_startup_mode s) (current_time_ms_of millis) (last_update_time_ms s)"
    and c: "sample_is_due (in_startup_mode s) (current_time_ms_of millis) (last_update_time_ms s)
        \<longrightarrow> last_update_time_ms s' = current_time_ms_of millis"
    using loop_sampled [OF ok, of boot_time_ms millis adc] by blast
  have next_one: "sample_is_due (in_startup_mode s') (current_time_ms_of millis')
              (current_time_ms_of millis)"
    if "list_ex is_sensor_read out"
      "loop boot_time_ms s' millis' adc' = Inr (s'', out')"
      "list_ex is_sensor_read out'" for millis' adc' s'' out'
    using loop_sampled [OF ok', of boot_time_ms millis' adc'] that a c by auto
  show "\<exists>s' out. loop boot_time_ms s millis adc = Inr (s', out) \<and>
      (list_ex is_sensor_read out \<longleftrightarrow>
         sample_is_due (in_startup_mode s) (current_time_ms_of millis) (last_update_time_ms s)) \<and>
      (list_ex is_render out \<longleftrightarrow>
         sample_is_due (in_startup_mode s) (current_time_ms_of millis) (last_update_time_ms s)) \<and>
      (list_ex is_sensor_read out \<longrightarrow>
         last_update_time_ms s' = current_time_ms_of millis \<and>
         (\<forall>millis' adc' s'' out'.
            loop boot_time_ms s' millis' adc' = Inr (s'', out') \<and>
            list_ex is_sensor_read out' \<longrightarrow>
            sample_is_due (in_startup_mode s') (current_time_ms_of millis')
              (current_time_ms_of millis)))"
    using l a b c next_one by blast
qed


theorem sample_iff_due_witness:
  "cache_ok (initial_gauge 0) \<and>
   sample_is_due (in_startup_mode (initial_gauge 0)) (current_time_ms_of 500)
     (last_update_time_ms (initial_gauge 0)) \<and>
   (\<exists>s' out. loop 0 (initial_gauge 0) 500 7 = Inr (s', out) \<and>
      list_ex is_sensor_read out \<and> list_ex is_render out \<and>
      last_update_time_ms s' = current_time_ms_of 500) \<and>
   sample_is_due (in_startup_mode (initial_scheduler 0)) (current_time_ms_of 500)
     (last_update_time_ms (initial_scheduler 0)) \<and>
   (\<exists>t' out. loop_two_stage 0 (initial_scheduler 0) 500 7 = Inr (t', out) \<and>
      list_ex is_sensor_read out \<and> list_ex is_render out \<and>
      last_update_time_ms t' = current_time_ms_of 500)"
proof -
  have a: "sample_is_due (in_startup_mode (initial_gauge 0)) (current_time_ms_of 500)
     (last_update_time_ms (initial_gauge 0))"
    by (simp add: sample_is_due_def initial_gauge_def current_time_ms_of_def)
  have b: "sample_is_due (in_startup_mode (initial_scheduler 0)) (current_time_ms_of 500)
     (last_update_time_ms (initial_scheduler 0))"
    by (simp add: sample_is_due_def initial_scheduler_def current_time_ms_of_def)
  show ?thesis
    using sample_iff_due [of 0 "initial_scheduler 0" 500 7 "initial_gauge 0"] a b
      cache_ok_initial_gauge [of 0]
    by blast
qed


text \<open>
  Claim C5.  Once the startup flag is cleared no sequence of polls sets it again, so it is
  cleared at most once; and a poll clears it only when it is due, samples, and the time
  since boot (as \<^verbatim>\<open>loop\<close> computes it) is at least 5000 ms.
\<close>

theorem startup_mode_left_once:
  "(run boot_time_ms s polls = Inr (s', out) \<and> \<not> in_startup_mode s \<longrightarrow> \<not> in_startup_mode s') \<and>
   (loop boot_time_ms s millis adc = Inr (s1, out1) \<and> in_startup_mode s \<and> \<not> in_startup_mode s1 \<longrightarrow>
      sample_is_due True (current_time_ms_of millis) (last_update_time_ms s) \<and>
      list_ex is_sensor_read out1 \<and>
      5000 \<le> uint (current_time_ms_of millis - boot_time_ms)) \<and>
   (run_two_stage boot_time_ms t polls = Inr (t', out') \<and> \<not> in_startup_mode t \<longrightarrow>
      \<not> in_startup_mode t') \<and>
   (loop_two_stage boot_time_ms t millis adc = Inr (t1, out1') \<and> in_startup_mode t \<and>
      \<not> in_startup_mode t1 \<longrightarrow>
      sample_is_due True (current_time_ms_of millis) (last_update_time_ms t) \<and>
      list_ex is_sensor_read out1' \<and>
      5000 \<le> uint (current_time_ms_of millis - boot_time_ms))"
  using run_keeps_normal_mode [of boot_time_ms s polls s' out]
    loop_leaves_startup [of boot_time_ms s millis adc s1 out1]
    run_two_stage_keeps_normal_mode [of boot_time_ms t polls t' out']
    loop_two_stage_leaves_startup [of boot_time_ms t millis adc t1 out1']
  by blast

lemma loop_first_sample_at_5000:
  "loop 0 (initial_gauge 0) 5000 0 =
   Inr (\<lparr>last_update_time_ms = 5000, in_startup_mode = False,
      samples = replicate 100 0, next_sample = 1, samples_to_average = 1\<rparr>,
      diagnostics True 0 5000 5000 @ [Serial_println ''Passed early return check'', Analog_read A1,
        Show_gas_meter 16, Show_gas_stats 1 0 (263 / 10)])"
  by code_simp

lemma run_normal_mode_polls:
  "run 0 \<lparr>last_update_time_ms = 5000, in_startup_mode = False,
      samples = replicate 100 0, next_sample = 1, samples_to_average = 1\<rparr>
     [(6000, 7), (10000, 7)] =
   Inr (\<lparr>last_update_time_ms = 10000, in_startup_mode = False,
      samples = [0, 7] @ replicate 98 0, next_sample = 2, samples_to_average = 2\<rparr>,
      diagnostics False 5000 6000 1000 @
      diagnostics False 5000 10000 5000 @ [Serial_println ''Passed early return check'',
        Analog_read A1, Show_gas_meter 16, Show_gas_stats 1 3 (521541 / 20000)])"
  by code_simp


lemma loop_two_stage_first_sample_at_5000:
  "\<exists>out. loop_two_stage 0 (initial_scheduler 0) 5000 80 =
     Inr (\<lparr>last_update_time_ms = 5000, in_startup_mode = False\<rparr>, out)"
  by (simp add: loop_two_stage_eq Let_def initial_scheduler_def current_time_ms_of_def
      early_return_iff uint_delta_ms_of next_startup_mode_iff)

lemma run_two_stage_normal_mode_polls:
  "\<exists>out. run_two_stage 0 \<lparr>last_update_time_ms = 5000, in_startup_mode = False\<rparr>
     [(6000, 7), (10000, 80)] =
     Inr (\<lparr>last_update_time_ms = 10000, in_startup_mode = False\<rparr>, out)"
  by (simp add: loop_two_stage_eq Let_def current_time_ms_of_def
      early_return_iff uint_delta_ms_of next_startup_mode_iff)

theorem startup_mode_left_once_witness:
  "in_startup_mode (initial_gauge 0) \<and>
   (\<exists>s1 out1. loop 0 (initial_gauge 0) 5000 0 = Inr (s1, out1) \<and> \<not> in_startup_mode s1 \<and>
      list_ex is_sensor_read out1 \<and>
      (\<exists>s' out. run 0 s1 [(6000, 7), (10000, 7)] = Inr (s', out) \<and> \<not> in_startup_mode s')) \<and>
   sample_is_due True (current_time_ms_of 5000) (last_update_time_ms (initial_gauge 0)) \<and>
   5000 \<le> uint (current_time_ms_of 5000 - 0) \<and>
   in_startup_mode (initial_scheduler 0) \<and>
   (\<exists>t1 out1. loop_two_stage 0 (initial_scheduler 0) 5000 80 = Inr (t1, out1) \<and>
      \<not> in_startup_mode t1 \<and> list_ex is_sensor_read out1 \<and>
      (\<exists>t' out. run_two_stage 0 t1 [(6000, 7), (10000, 80)] = Inr (t', out) \<and>
         \<not> in_startup_mode t')) \<and>
   sample_is_due True (current_time_ms_of 5000) (last_update_time_ms (initial_scheduler 0))"
proof -
  let ?s1 = "\<lparr>last_update_time_ms = 5000, in_startup_mode = False,
      samples = replicate 100 0, next_sample = 1, samples_to_average = 1\<rparr>"
  let ?t1 = "\<lparr>last_update_time_ms = 5000, in_startup_mode = False\<rparr>"
  obtain out1 where a: "loop 0 (initial_gauge 0) 5000 0 = Inr (?s1, out1)"
    using loop_first_sample_at_5000 by blast
  obtain s' out where b: "run 0 ?s1 [(6000, 7), (10000, 7)] = Inr (s', out)"
    using run_normal_mode_polls by blast
  obtain out1' where c: "loop_two_stage 0 (initial_scheduler 0) 5000 80 = Inr (?t1, out1')"
    using loop_two_stage_first_sample_at_5000 by blast
  obtain t' out' where d: "run_two_stage 0 ?t1 [(6000, 7), (10000, 80)] = Inr (t', out')"
    using run_two_stage_normal_mode_polls by blast
  have e: "in_startup_mode (initial_gauge 0)" "in_startup_mode (initial_scheduler 0)"
    "\<not> in_startup_mode ?s1" "\<not> in_startup_mode ?t1"
    by (simp_all add: initial_gauge_def initial_scheduler_def)
  note run1 = startup_mode_left_once [where boot_time_ms = 0 and s = ?s1 and polls = "[(6000, 7), (10000, 7)]"
      and s' = s' and out = out, THEN conjunct1]
  note run2 = startup_mode_left_once [where boot_time_ms = 0 and t = ?t1 and polls = "[(6000, 7), (10000, 80)]"
      and t' = t' and out' = out', THEN conjunct2, THEN conjunct2, THEN conjunct1]
  note step1 = startup_mode_left_once [where boot_time_ms = 0 and s = "initial_gauge 0" and millis = 5000
      and adc = 0 and ?s1.0 = ?s1 and ?out1.0 = out1, THEN conjunct2, THEN conjunct1]
  note step2 = startup_mode_left_once [where boot_time_ms = 0 and t = "initial_scheduler 0" and millis = 5000
      and adc = 80 and ?t1.0 = ?t1 and out1' = out1',
      THEN conjunct2, THEN conjunct2, THEN conjunct2]
  have "\<not> in_startup_mode s'" using run1 b e by blast
  moreover have "\<not> in_startup_mode t'" using run2 d e by blast
  moreover have "sample_is_due True (current_time_ms_of 5000)
        (last_update_time_ms (initial_gauge 0)) \<and>
      list_ex is_sensor_read out1 \<and> 5000 \<le> uint (current_time_ms_of 5000 - 0)"
    using step1 a e by blast
  moreover have "sample_is_due True (current_time_ms_of 5000)
        (last_update_time_ms (initial_scheduler 0)) \<and>
      list_ex is_sensor_read out1' \<and> 5000 \<le> uint (current_time_ms_of 5000 - 0)"
    using step2 c e by blast
  ultimately show ?thesis
    using a b c d e by simp
qed

section \<open>What a due tick renders\<close>





section \<open>The cache of samples stays within its bounds\<close>

lemma run_defined:
  "cache_ok s \<Longrightarrow>
     \<exists>s' out. run boot_time_ms s polls = Inr (s', out) \<and> cache_ok s' \<and>
       (1 \<le> samples_to_average s \<or> list_ex is_sensor_read out \<longrightarrow> 1 \<le> samples_to_average s')"
proof (induction polls arbitrary: s)
  case Nil
  then show ?case by simp
next
  case (Cons p polls)
  obtain millis adc where p: "p = (millis, adc)" by (cases p)
  from loop_defined [OF Cons.prems, of boot_time_ms millis adc]
  obtain s1 out1 where a: "loop boot_time_ms s millis adc = Inr (s1, out1)" "cache_ok s1"
    "1 \<le> samples_to_average s \<or> list_ex is_sensor_read out1 \<longrightarrow> 1 \<le> samples_to_average s1"
    by blast
  from Cons.IH [OF a(2)]
  obtain s' out2 where b: "run boot_time_ms s1 polls = Inr (s', out2)" "cache_ok s'"
    "1 \<le> samples_to_average s1 \<or> list_ex is_sensor_read out2 \<longrightarrow> 1 \<le> samples_to_average s'"
    by blast
  have "run boot_time_ms s (p # polls) = Inr (s', out1 @ out2)"
    by (simp add: p a(1) b(1))
  moreover have "1 \<le> samples_to_average s \<or> list_ex is_sensor_read (out1 @ out2)
      \<longrightarrow> 1 \<le> samples_to_average s'"
    using a(3) b(3) by auto
  ultimately show ?case using b(2) by blast
qed


text \<open>
  Claim C10.  Every run of \<^verbatim>\<open>gas-gauge.ino\<close> from the initial state is defined at every
  poll: no access to \<^verbatim>\<open>samples\<close> is out of bounds and no average divides by zero.
  After the run the write index is in \<open>[0, 100)\<close> and the count is at most 100, and at
  least 1 as soon as one poll has sampled.  The cache update of every further due poll
  leaves the write index in \<open>[0, 100)\<close> and the count in \<open>[1, 100]\<close>, and the average
  that follows is defined.  On the first sample the count is 1.
\<close>

theorem cache_indices_stay_in_bounds:
  "\<exists>s out. run boot_time_ms (initial_gauge boot_time_ms) polls = Inr (s, out) \<and>
     int (length (samples s)) = 100 \<and>
     0 \<le> next_sample s \<and> next_sample s < 100 \<and>
     0 \<le> samples_to_average s \<and> samples_to_average s \<le> 100 \<and>
     (list_ex is_sensor_read out \<longrightarrow> 1 \<le> samples_to_average s) \<and>
     (\<forall>millis adc.
        sample_is_due (in_startup_mode s) (current_time_ms_of millis) (last_update_time_ms s) \<longrightarrow>
        (\<exists>s1 average_sensor_value s' out'.
           update_cache
             (s\<lparr>in_startup_mode := next_startup_mode boot_time_ms (in_startup_mode s)
                                     (current_time_ms_of millis)\<rparr>) (uint adc) = Inr s1 \<and>
           0 \<le> next_sample s1 \<and> next_sample s1 < 100 \<and>
           1 \<le> samples_to_average s1 \<and> samples_to_average s1 \<le> 100 \<and>
           calculate_average s1 = Inr average_sensor_value \<and>
           loop boot_time_ms s millis adc = Inr (s', out') \<and>
           next_sample s' = next_sample s1 \<and>
           samples_to_average s' = samples_to_average s1 \<and>
           (polls = [] \<longrightarrow> samples_to_average s' = 1)))"
proof -
  obtain s out where r: "run boot_time_ms (initial_gauge boot_time_ms) polls = Inr (s, out)"
    and ok: "cache_ok s"
    and one: "list_ex is_sensor_read out \<longrightarrow> 1 \<le> samples_to_average s"
    using run_defined [OF cache_ok_initial_gauge, of boot_time_ms boot_time_ms polls] by blast
  have tick: "\<exists>s1 average_sensor_value s' out'.
           update_cache
             (s\<lparr>in_startup_mode := next_startup_mode boot_time_ms (in_startup_mode s)
                                     (current_time_ms_of millis)\<rparr>) (uint adc) = Inr s1 \<and>
           0 \<le> next_sample s1 \<and> next_sample s1 < 100 \<and>
           1 \<le> samples_to_average s1 \<and> samples_to_average s1 \<le> 100 \<and>
           calculate_average s1 = Inr average_sensor_value \<and>
           loop boot_time_ms s millis adc = Inr (s', out') \<and>
           next_sample s' = next_sample s1 \<and>
           samples_to_average s' = samples_to_average s1 \<and>
           (polls = [] \<longrightarrow> samples_to_average s' = 1)"
    if due: "sample_is_due (in_startup_mode s) (current_time_ms_of millis) (last_update_time_ms s)"
    for millis adc
  proof -
    have nd: "\<not> early_return (in_startup_mode s)
        (delta_ms_of (current_time_ms_of millis) (last_update_time_ms s))"
      using due by (simp add: due_iff)
    from loop_due [OF ok nd, of boot_time_ms adc]
    obtain s1 a where s1: "update_cache
           (s\<lparr>in_startup_mode := next_startup_mode boot_time_ms (in_startup_mode s)
                                   (current_time_ms_of millis)\<rparr>) (uint adc) = Inr s1"
      "cache_ok s1" "1 \<le> samples_to_average s1" "calculate_average s1 = Inr a"
      and l: "\<exists>out'. loop boot_time_ms s millis adc =
             Inr (s1\<lparr>last_update_time_ms := current_time_ms_of millis\<rparr>, out')"
      by blast
    have first: "samples_to_average s1 = 1" if "polls = []"
    proof -
      have "s = initial_gauge boot_time_ms" using r that by simp
      then show ?thesis
        using s1(1) by (auto simp: update_cache_def initial_gauge_def MAX_SAMPLES_def Let_def)
    qed
    from l obtain out' where "loop boot_time_ms s millis adc =
             Inr (s1\<lparr>last_update_time_ms := current_time_ms_of millis\<rparr>, out')" by blast
    moreover have "0 \<le> next_sample s1 \<and> next_sample s1 < 100 \<and> samples_to_average s1 \<le> 100"
      using s1(2) by (simp add: cache_ok_def MAX_SAMPLES_def)
    ultimately show ?thesis using s1 first by auto
  qed
  have "int (length (samples s)) = 100 \<and> 0 \<le> next_sample s \<and> next_sample s < 100 \<and>
     0 \<le> samples_to_average s \<and> samples_to_average s \<le> 100"
    using ok by (simp add: cache_ok_def MAX_SAMPLES_def)
  then show ?thesis using r one tick by blast
qed


lemma run_one_reading:
  "run 0 (initial_gauge 0) [(500, 100)] =
   Inr (\<lparr>last_update_time_ms = 500, in_startup_mode = True,
      samples = 100 # replicate 99 0, next_sample = 1, samples_to_average = 1\<rparr>,
      diagnostics True 0 500 500 @ [Serial_println ''Passed early return check'', Analog_read A1,
        Show_gas_meter 16, Show_gas_stats 1 100 (1993 / 100)])"
  by code_simp

theorem cache_indices_stay_in_bounds_witness:
  "(\<exists>s out. run 0 (initial_gauge 0) [(500, 100)] = Inr (s, out) \<and>
      list_ex is_sensor_read out \<and> 1 \<le> samples_to_average s \<and>
      sample_is_due (in_startup_mode s) (current_time_ms_of 1000) (last_update_time_ms s) \<and>
      (\<exists>s' out'. loop 0 s 1000 200 = Inr (s', out') \<and>
         0 \<le> next_sample s' \<and> next_sample s' < 100 \<and>
         1 \<le> samples_to_average s' \<and> samples_to_average s' \<le> 100)) \<and>
   sample_is_due (in_startup_mode (initial_gauge 0)) (current_time_ms_of 500)
     (last_update_time_ms (initial_gauge 0)) \<and>
   (\<exists>s' out'. loop 0 (initial_gauge 0) 500 100 = Inr (s', out') \<and> samples_to_average s' = 1)"
proof -
  let ?S = "\<lparr>last_update_time_ms = 500, in_startup_mode = True,
      samples = 100 # replicate 99 0, next_sample = 1, samples_to_average = 1\<rparr>"
  from cache_indices_stay_in_bounds [of 0 "[(500, 100)]"]
  obtain s out where r: "run 0 (initial_gauge 0) [(500, 100)] = Inr (s, out)"
    and one: "list_ex is_sensor_read out \<longrightarrow> 1 \<le> samples_to_average s"
    and tick: "\<And>millis adc.
        sample_is_due (in_startup_mode s) (current_time_ms_of millis) (last_update_time_ms s) \<Longrightarrow>
        \<exists>s1 average_sensor_value s' out'.
           update_cache
             (s\<lparr>in_startup_mode := next_startup_mode 0 (in_startup_mode s)
                                     (current_time_ms_of millis)\<rparr>) (uint adc) = Inr s1 \<and>
           0 \<le> next_sample s1 \<and> next_sample s1 < 100 \<and>
           1 \<le> samples_to_average s1 \<and> samples_to_average s1 \<le> 100 \<and>
           calculate_average s1 = Inr average_sensor_value \<and>
           loop 0 s millis adc = Inr (s', out') \<and>
           next_sample s' = next_sample s1 \<and>
           samples_to_average s' = samples_to_average s1 \<and>
           ([(500, 100)] = ([] :: (32 word \<times> 10 word) list) \<longrightarrow> samples_to_average s' = 1)"
    by blast
  have s: "s = ?S" and out: "list_ex is_sensor_read out"
    using r unfolding run_one_reading by (auto simp: diagnostics_def)
  have due: "sample_is_due (in_startup_mode s) (current_time_ms_of 1000) (last_update_time_ms s)"
    unfolding s by (simp add: sample_is_due_def current_time_ms_of_def)
  from tick [OF due, of 200]
  have next_tick: "\<exists>s' out'. loop 0 s 1000 200 = Inr (s', out') \<and>
         0 \<le> next_sample s' \<and> next_sample s' < 100 \<and>
         1 \<le> samples_to_average s' \<and> samples_to_average s' \<le> 100"
    by auto
  have first_part: "\<exists>s out. run 0 (initial_gauge 0) [(500, 100)] = Inr (s, out) \<and>
      list_ex is_sensor_read out \<and> 1 \<le> samples_to_average s \<and>
      sample_is_due (in_startup_mode s) (current_time_ms_of 1000) (last_update_time_ms s) \<and>
      (\<exists>s' out'. loop 0 s 1000 200 = Inr (s', out') \<and>
         0 \<le> next_sample s' \<and> next_sample s' < 100 \<and>
         1 \<le> samples_to_average s' \<and> samples_to_average s' \<le> 100)"
    using r out one due next_tick by blast
  have due0: "sample_is_due (in_startup_mode (initial_gauge 0)) (current_time_ms_of 500)
     (last_update_time_ms (initial_gauge 0))"
    by (simp add: sample_is_due_def initial_gauge_def current_time_ms_of_def)
  from cache_indices_stay_in_bounds [of 0 "[]"]
  have "\<exists>s' out'. loop 0 (initial_gauge 0) 500 100 = Inr (s', out') \<and> samples_to_average s' = 1"
    using due0 by (simp, metis)
  then show ?thesis using first_part due0 by blast
qed

section \<open>The running average\<close>

lemma pushes_append:
  "pushes s (vs @ ws) = (case pushes s vs of Inl e \<Rightarrow> Inl e | Inr s' \<Rightarrow> pushes s' ws)"
  by (induction vs arbitrary: s) (auto split: sum.splits)

lemma update_cache_at:
  assumes "int (length (samples s)) = MAX_SAMPLES" and "next_sample s = int k" and "k < 100"
  shows "update_cache s v =
     Inr (s\<lparr>samples := (samples s)[k := v],
            next_sample := (if k + 1 = 100 then 0 else int (k + 1)),
            samples_to_average := min (samples_to_average s + 1) 100\<rparr>)"
  using assms by (auto simp: update_cache_def MAX_SAMPLES_def Let_def)

lemma pushes_fill:
  assumes "int (length (samples s)) = MAX_SAMPLES"
    and "next_sample s = int k" and "samples_to_average s = int k"
    and "k < 100" and "k + length vs \<le> 100"
  shows "\<exists>s'. pushes s vs = Inr s' \<and>
           samples s' = take k (samples s) @ vs @ drop (k + length vs) (samples s) \<and>
           next_sample s' = (if k + length vs = 100 then 0 else int (k + length vs)) \<and>
           samples_to_average s' = int (k + length vs)"
  using assms
proof (induction vs arbitrary: s k)
  case Nil
  then show ?case by simp
next
  case (Cons v vs)
  let ?s1 = "s\<lparr>samples := (samples s)[k := v],
            next_sample := (if k + 1 = 100 then 0 else int (k + 1)),
            samples_to_average := min (samples_to_average s + 1) 100\<rparr>"
  have len: "length (samples s) = 100"
    using Cons.prems(1) by (simp add: MAX_SAMPLES_def)
  have u: "update_cache s v = Inr ?s1"
    using Cons.prems(1,2,4) by (rule update_cache_at)
  have upd: "(samples s)[k := v] = take k (samples s) @ v # drop (Suc k) (samples s)"
    using Cons.prems(4) len by (simp add: upd_conv_take_nth_drop)
  show ?case
  proof (cases vs)
    case Nil
    then show ?thesis
      using u upd Cons.prems(3,4) by simp
  next
    case (Cons w ws)
    then have k1: "Suc k < 100" "Suc k + length vs \<le> 100"
      using Cons.prems(5) by simp_all
    have "int (length (samples ?s1)) = MAX_SAMPLES" "next_sample ?s1 = int (Suc k)"
      "samples_to_average ?s1 = int (Suc k)"
      using Cons.prems(1,3) k1(1) by simp_all
    from Cons.IH [OF this k1]
    obtain s' where s': "pushes ?s1 vs = Inr s'"
      "samples s' = take (Suc k) (samples ?s1) @ vs @ drop (Suc k + length vs) (samples ?s1)"
      "next_sample s' = (if Suc k + length vs = 100 then 0 else int (Suc k + length vs))"
      "samples_to_average s' = int (Suc k + length vs)"
      by blast
    have "take (Suc k) (samples ?s1) = take k (samples s) @ [v]"
      using Cons.prems(4) len by (simp add: upd)
    moreover have "drop (Suc k + length vs) (samples ?s1) = drop (Suc k + length vs) (samples s)"
      by simp
    ultimately have "samples s' =
        take k (samples s) @ (v # vs) @ drop (k + length (v # vs)) (samples s)"
      using s'(2) by simp
    then show ?thesis
      using u s'(1,3,4) by simp
  qed
qed

lemma pushes_initial:
  assumes "length vs \<le> 100"
  shows "\<exists>s'. pushes (initial_gauge boot_time_ms) vs = Inr s' \<and>
           samples s' = vs @ replicate (100 - length vs) 0 \<and>
           next_sample s' = (if length vs = 100 then 0 else int (length vs)) \<and>
           samples_to_average s' = int (length vs)"
proof -
  have "int (length (samples (initial_gauge boot_time_ms))) = MAX_SAMPLES"
    "next_sample (initial_gauge boot_time_ms) = int 0"
    "samples_to_average (initial_gauge boot_time_ms) = int 0"
    by (simp_all add: initial_gauge_def MAX_SAMPLES_def)
  from pushes_fill [OF this, of vs] assms
  obtain s' where "pushes (initial_gauge boot_time_ms) vs = Inr s'"
    "samples s' = take 0 (samples (initial_gauge boot_time_ms)) @ vs @
       drop (0 + length vs) (samples (initial_gauge boot_time_ms))"
    "next_sample s' = (if 0 + length vs = 100 then 0 else int (0 + length vs))"
    "samples_to_average s' = int (0 + length vs)"
    by auto
  then show ?thesis
    by (auto simp: initial_gauge_def MAX_SAMPLES_def)
qed


text \<open>
  Claim C1.  After \<open>N\<close> cache updates from the initial state, \<open>0 < N < 100\<close>, the computed
  average is the arithmetic mean of the \<open>N\<close> values pushed.  After 101 updates it is the
  mean of the last 100 values: the first value pushed has no part in it.
\<close>

theorem average_of_pushed_readings:
  "(0 < length vs \<and> length vs < 100 \<longrightarrow>
      (\<exists>s. pushes (initial_gauge boot_time_ms) vs = Inr s \<and>
           calculate_average s = Inr (of_int (sum_list vs) / of_nat (length vs)))) \<and>
   (length vs = 100 \<longrightarrow>
      (\<exists>s. pushes (initial_gauge boot_time_ms) (v # vs) = Inr s \<and>
           calculate_average s = Inr (of_int (sum_list vs) / 100)))"
proof (intro conjI impI)
  assume n: "0 < length vs \<and> length vs < 100"
  then obtain s where s: "pushes (initial_gauge boot_time_ms) vs = Inr s"
    "samples s = vs @ replicate (100 - length vs) 0"
    "samples_to_average s = int (length vs)"
    using pushes_initial [of vs boot_time_ms] by auto
  have "calculate_average s =
     Inr (of_int (sum_list (take (nat (samples_to_average s)) (samples s))) /
          of_int (samples_to_average s))"
  proof (rule calculate_average_eq)
    show "samples_to_average s \<le> int (length (samples s))"
      using n by (simp add: s(2,3))
    show "1 \<le> samples_to_average s"
      using n by (cases vs) (simp_all add: s(3))
  qed
  then have "calculate_average s = Inr (of_int (sum_list vs) / of_nat (length vs))"
    by (simp add: s(2,3))
  then show "\<exists>s. pushes (initial_gauge boot_time_ms) vs = Inr s \<and>
           calculate_average s = Inr (of_int (sum_list vs) / of_nat (length vs))"
    using s(1) by blast
next
  assume n: "length vs = 100"
  then have "vs \<noteq> []" by auto
  then obtain ws w where vs: "vs = ws @ [w]"
    by (metis rev_exhaust)
  then have lw: "length ws = 99" using n by simp
  obtain s0 where s0: "pushes (initial_gauge boot_time_ms) (v # ws) = Inr s0"
    "samples s0 = v # ws" "next_sample s0 = 0" "samples_to_average s0 = 100"
    using pushes_initial [of "v # ws" boot_time_ms] lw by auto
  let ?s = "s0\<lparr>samples := (samples s0)[0 := w], next_sample := 1,
      samples_to_average := 100\<rparr>"
  have "update_cache s0 w = Inr ?s"
    using update_cache_at [of s0 0 w] s0(2,3,4) lw by (simp add: MAX_SAMPLES_def)
  then have p: "pushes (initial_gauge boot_time_ms) (v # vs) = Inr ?s"
    using pushes_append [of "initial_gauge boot_time_ms" "v # ws" "[w]"] s0(1)
    by (simp add: vs)
  have "calculate_average ?s =
     Inr (of_int (sum_list (take (nat (samples_to_average ?s)) (samples ?s))) /
          of_int (samples_to_average ?s))"
    using s0(2) lw by (intro calculate_average_eq) simp_all
  then have "calculate_average ?s = Inr (of_int (sum_list vs) / 100)"
    using lw by (simp add: s0(2) vs)
  then show "\<exists>s. pushes (initial_gauge boot_time_ms) (v # vs) = Inr s \<and>
           calculate_average s = Inr (of_int (sum_list vs) / 100)"
    using p by blast
qed

theorem average_of_pushed_readings_witness:
  "0 < length [100, 200, 300 :: int] \<and> length [100, 200, 300 :: int] < 100 \<and>
   (\<exists>s. pushes (initial_gauge 0) [100, 200, 300] = Inr s \<and> calculate_average s = Inr 200) \<and>
   length (replicate 100 (7 :: int)) = 100 \<and>
   (\<exists>s. pushes (initial_gauge 0) (1000 # replicate 100 7) = Inr s \<and>
        calculate_average s = Inr 7)"
proof -
  have "sum_list (replicate 100 (7 :: int)) = 700"
    by (simp add: sum_list_replicate)
  then show ?thesis
    using average_of_pushed_readings [of "[100, 200, 300]" 0 0, THEN conjunct1]
      average_of_pushed_readings [of "replicate 100 7" 0 1000, THEN conjunct2]
    by simp
qed

end
